theory Spec2Isabelle
  imports Main "HOL-Library.Word" "HOL-Library.Monad_Syntax"
begin

section \<open>The Chinese Wall engine of LR2/task2.cpp\<close>

text \<open>
  The class \<open>ChineseWall\<close> keeps three counts of type \<open>size_t\<close>, the access matrix
  (\<open>vector<vector<bool>>\<close>), the owner of each object (\<open>vector<int>\<close>) and, for each
  firm, the set of firms it conflicts with (\<open>vector<set<int>>\<close>).

  Integer types are those of an LP64 platform: \<open>int\<close> is a 32-bit two's complement
  word, \<open>size_t\<close> is an unsigned 64-bit value. Values of type \<open>size_t\<close> are modelled
  as natural numbers (the code never does arithmetic on them beyond counting up to
  a bound); the two implicit conversions between \<open>int\<close> and \<open>size_t\<close> that the code
  relies on are written out.
\<close>

subsection \<open>Integer conversions\<close>

type_synonym cpp_int = "32 word"

definition size_t_of_int :: "cpp_int \<Rightarrow> nat" where
  \<comment> \<open>\<open>int\<close> to \<open>size_t\<close>: the value modulo \<open>2^64\<close> (a negative \<open>int\<close> becomes huge)\<close>
  "size_t_of_int x = nat (sint x mod 2 ^ 64)"

definition int_of_size_t :: "nat \<Rightarrow> cpp_int" where
  \<comment> \<open>\<open>size_t\<close> to \<open>int\<close>: the low 32 bits\<close>
  "int_of_size_t n = word_of_nat n"

subsection \<open>Vectors\<close>

text \<open>
  \<open>operator[]\<close> of \<open>std::vector\<close> past the end is undefined behaviour. It is the
  result \<open>None\<close> of every operation below.
\<close>

definition vec_at :: "'a list \<Rightarrow> nat \<Rightarrow> 'a option" where
  "vec_at xs i = (if i < length xs then Some (xs ! i) else None)"

definition vec_set :: "'a list \<Rightarrow> nat \<Rightarrow> 'a \<Rightarrow> 'a list option" where
  "vec_set xs i v = (if i < length xs then Some (xs[i := v]) else None)"

subsection \<open>The state\<close>

record ChineseWall =
  subjects :: nat
  objects :: nat
  firms :: nat
  accessMatrix :: "bool list list"
  objectOwners :: "cpp_int list"
  conflictClasses :: "cpp_int set list"

definition ChineseWall_init :: "nat \<Rightarrow> nat \<Rightarrow> nat \<Rightarrow> ChineseWall" where
  \<comment> \<open>the constructor \<open>ChineseWall(n, m, f)\<close>; \<open>resize\<close> value-initialises\<close>
  "ChineseWall_init n m f =
     \<lparr> subjects = n, objects = m, firms = f,
       accessMatrix = replicate n (replicate m False),
       objectOwners = replicate m 0,
       conflictClasses = replicate f {} \<rparr>"

text \<open>The lines written to \<open>std::cerr\<close>.\<close>

definition err_subject_object :: string where
  "err_subject_object = ''Error: invalid subject or object index.''"

definition err_object_firm :: string where
  "err_object_firm = ''Error: invalid object or firm index.''"

definition err_firm :: string where
  "err_firm = ''Error: invalid firm index.''"

subsection \<open>start\<close>

definition start :: "ChineseWall \<Rightarrow> ChineseWall" where
  "start w = w\<lparr>accessMatrix := map (\<lambda>row. replicate (length row) False) (accessMatrix w)\<rparr>"

subsection \<open>read\<close>

text \<open>
  The scan of \<open>read\<close> over the subjects \<open>i = 0, ..., subjects - 1\<close>: \<open>Some True\<close> when
  the loop leaves through \<open>return false\<close>, \<open>Some False\<close> when it runs to its end.
  The conflict set is only indexed when \<open>accessMatrix[i][object]\<close> is true
  (\<open>&&\<close> evaluates its right operand only then); \<open>count(i)\<close> converts \<open>i\<close> to \<open>int\<close>.
\<close>

fun read_scan :: "ChineseWall \<Rightarrow> nat \<Rightarrow> cpp_int \<Rightarrow> nat list \<Rightarrow> bool option" where
  "read_scan w object objectOwner [] = Some False"
| "read_scan w object objectOwner (i # rest) =
     do {
       row \<leftarrow> vec_at (accessMatrix w) i;
       a \<leftarrow> vec_at row object;
       if a then
         do {
           cs \<leftarrow> vec_at (conflictClasses w) (size_t_of_int objectOwner);
           if int_of_size_t i \<in> cs then Some True
           else read_scan w object objectOwner rest
         }
       else read_scan w object objectOwner rest
     }"

definition set_access :: "bool list list \<Rightarrow> nat \<Rightarrow> nat \<Rightarrow> bool list list option" where
  \<comment> \<open>\<open>accessMatrix[subject][object] = true\<close>\<close>
  "set_access m subject object =
     do {
       row \<leftarrow> vec_at m subject;
       row' \<leftarrow> vec_set row object True;
       vec_set m subject row'
     }"

text \<open>
  An operation returns its C++ return value, the lines it wrote to \<open>std::cerr\<close>, and
  the state it leaves.
\<close>

definition read :: "nat \<Rightarrow> nat \<Rightarrow> ChineseWall \<Rightarrow> (bool \<times> string list \<times> ChineseWall) option" where
  "read subject object w =
     (if subject \<ge> subjects w \<or> object \<ge> objects w then
        Some (False, [err_subject_object], w)
      else
        do {
          objectOwner \<leftarrow> vec_at (objectOwners w) object;
          found \<leftarrow> read_scan w object objectOwner [0..<subjects w];
          if found then Some (False, [], w)
          else
            do {
              m \<leftarrow> set_access (accessMatrix w) subject object;
              Some (True, [], w\<lparr>accessMatrix := m\<rparr>)
            }
        })"

subsection \<open>write\<close>

text \<open>
  The scan of \<open>write\<close> over the objects \<open>i = 0, ..., objects - 1\<close>, with the three
  operands of \<open>&&\<close> evaluated from left to right.
\<close>

fun write_scan :: "ChineseWall \<Rightarrow> nat \<Rightarrow> cpp_int \<Rightarrow> nat list \<Rightarrow> bool option" where
  "write_scan w subject objectOwner [] = Some False"
| "write_scan w subject objectOwner (i # rest) =
     do {
       row \<leftarrow> vec_at (accessMatrix w) subject;
       a \<leftarrow> vec_at row i;
       if a then
         do {
           oi \<leftarrow> vec_at (objectOwners w) i;
           if oi \<noteq> objectOwner then
             do {
               cs \<leftarrow> vec_at (conflictClasses w) (size_t_of_int objectOwner);
               if oi \<in> cs then Some True
               else write_scan w subject objectOwner rest
             }
           else write_scan w subject objectOwner rest
         }
       else write_scan w subject objectOwner rest
     }"

definition "write" :: "nat \<Rightarrow> nat \<Rightarrow> ChineseWall \<Rightarrow> (bool \<times> string list \<times> ChineseWall) option" where
  "write subject object w =
     (if subject \<ge> subjects w \<or> object \<ge> objects w then
        Some (False, [err_subject_object], w)
      else
        do {
          (ok, log, w1) \<leftarrow> read subject object w;
          if \<not> ok then Some (False, log, w1)
          else
            do {
              objectOwner \<leftarrow> vec_at (objectOwners w1) object;
              tainted \<leftarrow> write_scan w1 subject objectOwner [0..<objects w1];
              if tainted then Some (False, log, w1)
              else
                do {
                  m \<leftarrow> set_access (accessMatrix w1) subject object;
                  Some (True, log, w1\<lparr>accessMatrix := m\<rparr>)
                }
            }
        })"

subsection \<open>setObjectOwner and addConflictClass\<close>

text \<open>
  The comparisons \<open>firm >= firms\<close> are between an \<open>int\<close> and a \<open>size_t\<close>: the \<open>int\<close>
  is converted. Indexing \<open>conflictClasses[firm1]\<close> converts the same way.
\<close>

definition setObjectOwner :: "nat \<Rightarrow> cpp_int \<Rightarrow> ChineseWall \<Rightarrow> (string list \<times> ChineseWall) option" where
  "setObjectOwner object firm w =
     (if object \<ge> objects w \<or> size_t_of_int firm \<ge> firms w then
        Some ([err_object_firm], w)
      else
        do {
          os \<leftarrow> vec_set (objectOwners w) object firm;
          Some ([], w\<lparr>objectOwners := os\<rparr>)
        })"

definition addConflictClass :: "cpp_int \<Rightarrow> cpp_int \<Rightarrow> ChineseWall \<Rightarrow> (string list \<times> ChineseWall) option" where
  "addConflictClass firm1 firm2 w =
     (if size_t_of_int firm1 \<ge> firms w \<or> size_t_of_int firm2 \<ge> firms w then
        Some ([err_firm], w)
      else
        do {
          c1 \<leftarrow> vec_at (conflictClasses w) (size_t_of_int firm1);
          cc1 \<leftarrow> vec_set (conflictClasses w) (size_t_of_int firm1) (insert firm2 c1);
          c2 \<leftarrow> vec_at cc1 (size_t_of_int firm2);
          cc2 \<leftarrow> vec_set cc1 (size_t_of_int firm2) (insert firm1 c2);
          Some ([], w\<lparr>conflictClasses := cc2\<rparr>)
        })"

subsection \<open>The command loop of main\<close>

text \<open>
  The three commands of the loop that reach the engine's state, and the line the loop
  prints on \<open>std::cout\<close> in answer to each (the prompt aside).
\<close>

datatype command = Start | Read nat nat | Write nat nat

fun exec :: "command \<Rightarrow> ChineseWall \<Rightarrow> (string \<times> ChineseWall) option" where
  "exec Start w = Some (''Access histories cleared.'', start w)"
| "exec (Read s o') w =
     do {
       (ok, log, w') \<leftarrow> read s o' w;
       Some (if ok then ''accepted'' else ''refused'', w')
     }"
| "exec (Write s o') w =
     do {
       (ok, log, w') \<leftarrow> write s o' w;
       Some (if ok then ''accepted'' else ''refused'', w')
     }"

fun run :: "command list \<Rightarrow> ChineseWall \<Rightarrow> (string list \<times> ChineseWall) option" where
  "run [] w = Some ([], w)"
| "run (c # cs) w =
     do {
       (out, w1) \<leftarrow> exec c w;
       (outs, w2) \<leftarrow> run cs w1;
       Some (out # outs, w2)
     }"

section \<open>Properties of a state\<close>

text \<open>
  \<open>granted w s o\<close> is the entry \<open>accessMatrix[s][o]\<close> (false outside the matrix), as
  \<open>reportSubject\<close> and \<open>reportObject\<close> read it; \<open>conflicts w a b\<close> is
  \<open>conflictClasses[a].count(b)\<close> (false outside the vector).
\<close>

definition granted :: "ChineseWall \<Rightarrow> nat \<Rightarrow> nat \<Rightarrow> bool" where
  "granted w s o' \<longleftrightarrow>
     s < length (accessMatrix w) \<and> o' < length (accessMatrix w ! s) \<and> accessMatrix w ! s ! o'"

definition conflicts :: "ChineseWall \<Rightarrow> cpp_int \<Rightarrow> cpp_int \<Rightarrow> bool" where
  "conflicts w a b \<longleftrightarrow>
     size_t_of_int a < length (conflictClasses w) \<and> b \<in> conflictClasses w ! size_t_of_int a"

text \<open>
  \<open>grant s o w\<close> is the state after \<open>accessMatrix[s][o] = true\<close> with both indices
  inside the matrix. \<open>tainted w s o\<close> is the condition that the scan of \<open>write\<close> looks
  for: the subject holds an object of another firm that is in the conflict set of the
  owner of \<open>o\<close>.
\<close>

definition grant :: "nat \<Rightarrow> nat \<Rightarrow> ChineseWall \<Rightarrow> ChineseWall" where
  "grant s o' w = w\<lparr>accessMatrix := (accessMatrix w)[s := (accessMatrix w ! s)[o' := True]]\<rparr>"

definition tainted :: "ChineseWall \<Rightarrow> nat \<Rightarrow> nat \<Rightarrow> bool" where
  "tainted w s o' \<longleftrightarrow>
     (\<exists>i \<in> {..<objects w}. granted w s i \<and> objectOwners w ! i \<noteq> objectOwners w ! o' \<and>
        conflicts w (objectOwners w ! o') (objectOwners w ! i))"

text \<open>The state after an accepted \<open>addConflictClass(A, A)\<close>.\<close>

definition with_self_conflict :: "cpp_int \<Rightarrow> ChineseWall \<Rightarrow> ChineseWall" where
  "with_self_conflict A w =
     w\<lparr>conflictClasses :=
         (conflictClasses w)[size_t_of_int A := insert A (conflictClasses w ! size_t_of_int A)]\<rparr>"

definition symmetric_conflicts :: "ChineseWall \<Rightarrow> bool" where
  "symmetric_conflicts w \<longleftrightarrow> (\<forall>a b. conflicts w a b \<longleftrightarrow> conflicts w b a)"

text \<open>
  The class invariant that the constructor sets up: every vector has the length of its
  count. \<open>owners_in_range\<close> says that every owner indexes \<open>conflictClasses\<close> inside
  the vector; the constructor's owner \<open>0\<close> does so only when there is a firm.
\<close>

definition shape :: "ChineseWall \<Rightarrow> bool" where
  "shape w \<longleftrightarrow>
     length (accessMatrix w) = subjects w \<and>
     (\<forall>row \<in> set (accessMatrix w). length row = objects w) \<and>
     length (objectOwners w) = objects w \<and>
     length (conflictClasses w) = firms w"

definition owners_in_range :: "ChineseWall \<Rightarrow> bool" where
  "owners_in_range w \<longleftrightarrow> (\<forall>x \<in> set (objectOwners w). size_t_of_int x < firms w)"

text \<open>The Chinese Wall safety property of the access history.\<close>

definition cw_safe :: "ChineseWall \<Rightarrow> bool" where
  "cw_safe w \<longleftrightarrow>
     (\<forall>s \<in> {..<subjects w}. \<forall>o1 \<in> {..<objects w}. \<forall>o2 \<in> {..<objects w}.
        granted w s o1 \<and> granted w s o2 \<and> objectOwners w ! o1 \<noteq> objectOwners w ! o2 \<longrightarrow>
        \<not> conflicts w (objectOwners w ! o1) (objectOwners w ! o2))"

text \<open>
  The states of a session as main runs it: the constructor, then owners and conflict
  pairs, and only then traffic. \<open>running\<close> follows the traffic that consists of \<open>start\<close>
  and of accepted writes.
\<close>

inductive configured :: "ChineseWall \<Rightarrow> bool" where
  constructed: "configured (ChineseWall_init n m f)"
| owner_set: "configured w \<Longrightarrow> setObjectOwner object firm w = Some (log, w') \<Longrightarrow> configured w'"
| conflict_added: "configured w \<Longrightarrow> addConflictClass firm1 firm2 w = Some (log, w') \<Longrightarrow> configured w'"

inductive running :: "ChineseWall \<Rightarrow> bool" where
  set_up: "configured w \<Longrightarrow> running w"
| started: "running w \<Longrightarrow> running (start w)"
| written: "running w \<Longrightarrow> write s o' w = Some (True, log, w') \<Longrightarrow> running w'"

text \<open>One step of any operation but \<open>start\<close>, accepted or not.\<close>

inductive step :: "ChineseWall \<Rightarrow> ChineseWall \<Rightarrow> bool" where
  step_read: "read s o' w = Some (ok, log, w') \<Longrightarrow> step w w'"
| step_write: "write s o' w = Some (ok, log, w') \<Longrightarrow> step w w'"
| step_owner: "setObjectOwner object firm w = Some (log, w') \<Longrightarrow> step w w'"
| step_conflict: "addConflictClass firm1 firm2 w = Some (log, w') \<Longrightarrow> step w w'"


subsection \<open>Concrete sessions\<close>

text \<open>
  Two subjects, two objects owned by firm 0 and firm 1, and the conflict pair (0, 1):
  the state after the set-up of scenarios 1 and 2.
\<close>

definition scenario_policy :: ChineseWall where
  "scenario_policy =
     \<lparr> subjects = 2, objects = 2, firms = 2,
       accessMatrix = [[False, False], [False, False]],
       objectOwners = [0, 1],
       conflictClasses = [{1}, {0}] \<rparr>"

definition history :: "bool list list \<Rightarrow> ChineseWall" where
  \<comment> \<open>the scenario's policy with a given access matrix\<close>
  "history m = scenario_policy\<lparr>accessMatrix := m\<rparr>"

text \<open>One subject, two objects that both start with owner 0, firms 0 and 1 in conflict.\<close>

definition late_policy :: ChineseWall where
  "late_policy =
     \<lparr> subjects = 1, objects = 2, firms = 2,
       accessMatrix = [[False, False]],
       objectOwners = [0, 0],
       conflictClasses = [{1}, {0}] \<rparr>"

section \<open>Auxiliary facts\<close>

subsection \<open>The conversion from int to size_t is injective\<close>

lemma size_t_of_int_cases:
  "size_t_of_int a = (if 0 \<le> sint a then nat (sint a) else nat (sint a + 2 ^ 64))"
proof -
  have ba: "- (2 ^ 31) \<le> sint a" "sint a < 2 ^ 31"
    using sint_range_size [of a] by (simp_all add: word_size)
  show ?thesis
  proof (cases "0 \<le> sint a")
    case True
    with ba have "sint a mod 2 ^ 64 = sint a"
      by (intro mod_pos_pos_trivial) simp_all
    with True show ?thesis by (simp add: size_t_of_int_def)
  next
    case False
    have "sint a mod 2 ^ 64 = (sint a + 2 ^ 64) mod 2 ^ 64" by simp
    also from False ba have "\<dots> = sint a + 2 ^ 64"
      by (intro mod_pos_pos_trivial) simp_all
    finally show ?thesis using False by (simp add: size_t_of_int_def)
  qed
qed

lemma size_t_of_int_inj: "size_t_of_int a = size_t_of_int b \<longleftrightarrow> a = b"
proof
  assume h: "size_t_of_int a = size_t_of_int b"
  have ba: "- (2 ^ 31) \<le> sint a" "sint a < 2 ^ 31"
    using sint_range_size [of a] by (simp_all add: word_size)
  have bb: "- (2 ^ 31) \<le> sint b" "sint b < 2 ^ 31"
    using sint_range_size [of b] by (simp_all add: word_size)
  from h ba bb have "sint a = sint b"
    by (simp add: size_t_of_int_cases split: if_splits)
  then show "a = b" by (rule signed_word_eqI)
qed simp

subsection \<open>The scans and the grant, inside the vectors\<close>

lemma read_scan_total:
  assumes "shape w" "object < objects w" "size_t_of_int owner < firms w"
    and "\<forall>i \<in> set idxs. i < subjects w"
  shows "read_scan w object owner idxs =
           Some (\<exists>i \<in> set idxs. granted w i object \<and> conflicts w owner (int_of_size_t i))"
  using assms
  by (induction idxs) (auto simp: shape_def vec_at_def granted_def conflicts_def)

lemma write_scan_total:
  assumes "shape w" "owners_in_range w" "subject < subjects w" "size_t_of_int owner < firms w"
    and "\<forall>i \<in> set idxs. i < objects w"
  shows "write_scan w subject owner idxs =
           Some (\<exists>i \<in> set idxs. granted w subject i \<and> objectOwners w ! i \<noteq> owner \<and>
                   conflicts w owner (objectOwners w ! i))"
  using assms
  by (induction idxs) (auto simp: shape_def vec_at_def granted_def conflicts_def)

lemma set_access_total:
  assumes "subject < length m" "object < length (m ! subject)"
  shows "set_access m subject object = Some (m[subject := (m ! subject)[object := True]])"
  using assms by (simp add: set_access_def vec_at_def vec_set_def)

lemma set_access_Some:
  assumes "set_access m subject object = Some m'"
  shows "subject < length m \<and> object < length (m ! subject) \<and>
         m' = m[subject := (m ! subject)[object := True]]"
  using assms by (auto simp: set_access_def vec_at_def vec_set_def split: if_splits bind_splits)

lemma owner_in_range:
  "shape w \<Longrightarrow> owners_in_range w \<Longrightarrow> object < objects w \<Longrightarrow>
   size_t_of_int (objectOwners w ! object) < firms w"
  by (simp add: shape_def owners_in_range_def)

lemma shape_grant: "shape w \<Longrightarrow> shape (grant s o' w)"
proof (cases "s < length (accessMatrix w)")
  case True
  assume "shape w"
  with True show ?thesis
    by (auto simp: shape_def grant_def dest!: set_update_subset_insert [THEN subsetD])
next
  case False
  assume "shape w"
  with False show ?thesis by (simp add: shape_def grant_def list_update_beyond)
qed

lemma granted_grant:
  "s < length (accessMatrix w) \<Longrightarrow> o' < length (accessMatrix w ! s) \<Longrightarrow>
   granted (grant s o' w) a b \<longleftrightarrow> granted w a b \<or> (a = s \<and> b = o')"
  by (auto simp: granted_def grant_def nth_list_update)

lemma read_total:
  assumes "shape w" "owners_in_range w" "subject < subjects w" "object < objects w"
  shows "read subject object w =
           (if \<exists>i \<in> {..<subjects w}. granted w i object \<and>
                  conflicts w (objectOwners w ! object) (int_of_size_t i)
            then Some (False, [], w)
            else Some (True, [], grant subject object w))"
proof -
  from assms have own: "vec_at (objectOwners w) object = Some (objectOwners w ! object)"
    by (simp add: vec_at_def shape_def)
  from assms have scan: "read_scan w object (objectOwners w ! object) [0..<subjects w] =
      Some (\<exists>i \<in> {..<subjects w}. granted w i object \<and>
              conflicts w (objectOwners w ! object) (int_of_size_t i))"
    by (simp add: read_scan_total owner_in_range lessThan_def Bex_def)
  from assms have acc: "set_access (accessMatrix w) subject object =
      Some ((accessMatrix w)[subject := (accessMatrix w ! subject)[object := True]])"
    by (intro set_access_total) (simp_all add: shape_def)
  from assms show ?thesis
    by (simp add: read_def own scan acc grant_def del: read_scan.simps)
qed

subsection \<open>What a returned result says about the call\<close>

lemma write_scan_False:
  "write_scan w s owner idxs = Some False \<Longrightarrow> i \<in> set idxs \<Longrightarrow> granted w s i \<Longrightarrow>
   objectOwners w ! i \<noteq> owner \<Longrightarrow> i < length (objectOwners w) \<Longrightarrow>
   \<not> conflicts w owner (objectOwners w ! i)"
  by (induction idxs)
    (auto simp: vec_at_def granted_def conflicts_def split: if_splits bind_splits)

lemma read_Some:
  assumes "read s o' w = Some (ok, log, w')"
  shows "(\<not> ok \<longrightarrow> w' = w) \<and>
         (ok \<longrightarrow> log = [] \<and> w' = grant s o' w \<and> s < subjects w \<and> o' < objects w \<and>
            s < length (accessMatrix w) \<and> o' < length (accessMatrix w ! s) \<and>
            o' < length (objectOwners w))"
  using assms
  by (auto simp: read_def grant_def vec_at_def dest!: set_access_Some split: if_splits bind_splits)

lemma grant_idem: "grant s o' (grant s o' w) = grant s o' w"
  by (cases "s < length (accessMatrix w)") (simp_all add: grant_def list_update_beyond)

lemma grant_sel:
  "subjects (grant s o' w) = subjects w" "objects (grant s o' w) = objects w"
  "firms (grant s o' w) = firms w" "objectOwners (grant s o' w) = objectOwners w"
  "conflictClasses (grant s o' w) = conflictClasses w"
  by (simp_all add: grant_def)

lemma write_Some:
  assumes "write s o' w = Some (ok, log, w')"
  shows "(w' = w \<or> w' = grant s o' w \<and> s < subjects w \<and> o' < objects w \<and>
            s < length (accessMatrix w) \<and> o' < length (accessMatrix w ! s) \<and>
            o' < length (objectOwners w)) \<and>
         (ok \<longrightarrow> w' = grant s o' w \<and>
            s < length (accessMatrix w) \<and> o' < length (accessMatrix w ! s) \<and>
            write_scan w' s (objectOwners w ! o') [0..<objects w] = Some False)"
proof (cases "s \<ge> subjects w \<or> o' \<ge> objects w")
  case True
  with assms show ?thesis by (auto simp: write_def)
next
  case False
  with assms obtain ok1 log1 w1 where r: "read s o' w = Some (ok1, log1, w1)"
    by (auto simp: write_def split: bind_splits)
  show ?thesis
  proof (cases ok1)
    case False
    with r assms \<open>\<not> (s \<ge> subjects w \<or> o' \<ge> objects w)\<close> show ?thesis
      using read_Some [OF r] by (auto simp: write_def)
  next
    case True
    with read_Some [OF r] have w1: "w1 = grant s o' w" and rest: "s < subjects w" "o' < objects w"
       "s < length (accessMatrix w)" "o' < length (accessMatrix w ! s)" "o' < length (objectOwners w)"
      by simp_all
    have upd: "\<And>m. set_access (accessMatrix (grant s o' w)) s o' = Some m \<Longrightarrow>
        grant s o' w\<lparr>accessMatrix := m\<rparr> = grant s o' w"
      using rest by (auto dest!: set_access_Some simp: grant_def)
    from assms r True rest show ?thesis
      by (auto simp: write_def w1 grant_sel vec_at_def upd split: bind_splits if_splits
          simp del: write_scan.simps)
  qed
qed


lemma addConflictClass_Some:
  assumes "addConflictClass f1 f2 w = Some (log, w')"
  shows "w' = w \<or>
         (\<exists>cc. w' = w\<lparr>conflictClasses := cc\<rparr> \<and> length cc = length (conflictClasses w) \<and>
            (\<forall>a b. conflicts w' a b \<longleftrightarrow>
               conflicts w a b \<or> (a = f1 \<and> b = f2) \<or> (a = f2 \<and> b = f1)))"
  using assms
  by (auto simp: addConflictClass_def vec_at_def vec_set_def conflicts_def nth_list_update
      size_t_of_int_inj split: if_splits bind_splits)

lemma setObjectOwner_Some:
  assumes "setObjectOwner object firm w = Some (log, w')"
  shows "w' = w \<or> (object < length (objectOwners w) \<and> size_t_of_int firm < firms w \<and>
           w' = w\<lparr>objectOwners := (objectOwners w)[object := firm]\<rparr>)"
  using assms
  by (auto simp: setObjectOwner_def vec_set_def split: if_splits bind_splits)

lemma shape_init: "shape (ChineseWall_init n m f)"
  by (simp add: shape_def ChineseWall_init_def)

lemma no_grants_init: "\<not> granted (ChineseWall_init n m f) s o'"
  by (auto simp: granted_def ChineseWall_init_def)

lemma no_conflicts_init: "\<not> conflicts (ChineseWall_init n m f) a b"
  by (simp add: conflicts_def ChineseWall_init_def)

lemma shape_start: "shape w \<Longrightarrow> shape (start w)"
  by (simp add: shape_def start_def)

lemma no_grants_start: "\<not> granted (start w) s o'"
  by (auto simp: granted_def start_def)

lemma conflicts_start: "conflicts (start w) = conflicts w"
  by (simp add: conflicts_def start_def fun_eq_iff)

lemma no_grants_safe: "(\<And>s o'. \<not> granted w s o') \<Longrightarrow> cw_safe w"
  by (simp add: cw_safe_def)

lemma configured_inv:
  "configured w \<Longrightarrow> shape w \<and> symmetric_conflicts w \<and> (\<forall>s o'. \<not> granted w s o')"
proof (induction rule: configured.induct)
  case (constructed n m f)
  show ?case
    by (simp add: shape_init no_grants_init no_conflicts_init symmetric_conflicts_def)
next
  case (owner_set w object firm log w')
  from setObjectOwner_Some [OF owner_set.hyps(2)] show ?case
  proof
    assume "w' = w"
    with owner_set.IH show ?thesis by simp
  next
    assume "object < length (objectOwners w) \<and> size_t_of_int firm < firms w \<and>
           w' = w\<lparr>objectOwners := (objectOwners w)[object := firm]\<rparr>"
    then have w': "w' = w\<lparr>objectOwners := (objectOwners w)[object := firm]\<rparr>" by simp
    have "conflicts w' = conflicts w" "granted w' = granted w"
      by (simp_all add: w' conflicts_def granted_def fun_eq_iff)
    moreover from owner_set.IH have "shape w'" by (simp add: w' shape_def)
    ultimately show ?thesis using owner_set.IH by (simp add: symmetric_conflicts_def)
  qed
next
  case (conflict_added w firm1 firm2 log w')
  from addConflictClass_Some [OF conflict_added.hyps(2)] show ?case
  proof
    assume "w' = w"
    with conflict_added.IH show ?thesis by simp
  next
    assume "\<exists>cc. w' = w\<lparr>conflictClasses := cc\<rparr> \<and> length cc = length (conflictClasses w) \<and>
            (\<forall>a b. conflicts w' a b \<longleftrightarrow>
               conflicts w a b \<or> (a = firm1 \<and> b = firm2) \<or> (a = firm2 \<and> b = firm1))"
    then obtain cc where w': "w' = w\<lparr>conflictClasses := cc\<rparr>"
      and len: "length cc = length (conflictClasses w)"
      and c: "\<And>a b. conflicts w' a b \<longleftrightarrow>
               conflicts w a b \<or> (a = firm1 \<and> b = firm2) \<or> (a = firm2 \<and> b = firm1)"
      by blast
    from conflict_added.IH have sym: "\<And>a b. conflicts w a b \<longleftrightarrow> conflicts w b a"
      by (simp add: symmetric_conflicts_def)
    have "symmetric_conflicts w'"
      unfolding symmetric_conflicts_def using c sym by blast
    moreover from conflict_added.IH w' len have "shape w'" by (simp add: shape_def)
    moreover from conflict_added.IH w' have "\<forall>s o'. \<not> granted w' s o'"
      by (simp add: granted_def)
    ultimately show ?thesis by simp
  qed
qed

lemma cw_safe_written:
  assumes sh: "shape w" and sym: "symmetric_conflicts w" and safe: "cw_safe w"
    and wr: "write s o' w = Some (True, log, w')"
  shows "cw_safe w'"
proof -
  from write_Some [OF wr] have w': "w' = grant s o' w"
    and scan: "write_scan w' s (objectOwners w ! o') [0..<objects w] = Some False"
    and rng: "s < length (accessMatrix w)" "o' < length (accessMatrix w ! s)"
    by auto
  have own: "objectOwners w' = objectOwners w" and obj: "objects w' = objects w"
    and sub: "subjects w' = subjects w"
    and con: "conflicts w' = conflicts w"
    by (simp_all add: w' grant_def conflicts_def fun_eq_iff)
  have g: "\<And>a b. granted w' a b \<longleftrightarrow> granted w a b \<or> (a = s \<and> b = o')"
    unfolding w' using rng by (rule granted_grant)
  have fresh: "\<not> conflicts w (objectOwners w ! o') (objectOwners w ! i)"
    if "i < objects w" "granted w' s i" "objectOwners w ! i \<noteq> objectOwners w ! o'" for i
    using write_scan_False [OF scan, of i] that sh
    by (simp add: own con shape_def)
  show ?thesis
    unfolding cw_safe_def own obj sub con
  proof (intro ballI impI, elim conjE)
    fix a o1 o2
    assume a: "a \<in> {..<subjects w}" and o1: "o1 \<in> {..<objects w}" and o2: "o2 \<in> {..<objects w}"
      and g1: "granted w' a o1" and g2: "granted w' a o2"
      and ne: "objectOwners w ! o1 \<noteq> objectOwners w ! o2"
    show "\<not> conflicts w (objectOwners w ! o1) (objectOwners w ! o2)"
    proof (cases "a = s \<and> (o1 = o' \<or> o2 = o')")
      case False
      with g1 g2 have "granted w a o1" "granted w a o2" by (auto simp: g)
      with safe a o1 o2 ne show ?thesis by (auto simp: cw_safe_def)
    next
      case True
      then have as: "a = s" by simp
      from True consider "o1 = o'" | "o2 = o'" by blast
      then show ?thesis
      proof cases
        case 1
        with fresh [of o2] o2 g2 ne as show ?thesis by auto
      next
        case 2
        with fresh [of o1] o1 g1 ne as
        have "\<not> conflicts w (objectOwners w ! o2) (objectOwners w ! o1)" by auto
        with sym show ?thesis by (simp add: symmetric_conflicts_def)
      qed
    qed
  qed
qed

lemma running_inv: "running w \<Longrightarrow> shape w \<and> symmetric_conflicts w \<and> cw_safe w"
proof (induction rule: running.induct)
  case (set_up w)
  with configured_inv [of w] show ?case by (simp add: no_grants_safe)
next
  case (started w)
  then show ?case
    by (simp add: shape_start no_grants_start no_grants_safe symmetric_conflicts_def conflicts_start)
next
  case (written w s o' log w')
  from write_Some [OF written.hyps(2)] have w': "w' = grant s o' w" by simp
  have "conflicts w' = conflicts w" by (simp add: w' grant_def conflicts_def fun_eq_iff)
  with written.IH have "symmetric_conflicts w'" by (simp add: symmetric_conflicts_def)
  moreover from written.IH have "shape w'" by (simp add: w' shape_grant)
  moreover from written.IH written.hyps(2) have "cw_safe w'" by (blast intro: cw_safe_written)
  ultimately show ?case by simp
qed

lemma write_total:
  assumes "shape w" "owners_in_range w" "subject < subjects w" "object < objects w"
  shows "read subject object w = Some (False, [], w) \<and>
           write subject object w = Some (False, [], w)
         \<or>
         read subject object w = Some (True, [], grant subject object w) \<and>
           write subject object w =
             (if tainted (grant subject object w) subject object
              then Some (False, [], grant subject object w)
              else Some (True, [], grant subject object (grant subject object w)))"
proof (cases "\<exists>i \<in> {..<subjects w}. granted w i object \<and>
                  conflicts w (objectOwners w ! object) (int_of_size_t i)")
  case True
  with assms have "read subject object w = Some (False, [], w)"
    by (simp add: read_total)
  with assms show ?thesis by (simp add: write_def)
next
  case False
  let ?w1 = "grant subject object w"
  from False assms have r: "read subject object w = Some (True, [], ?w1)"
    by (simp add: read_total)
  have sh: "shape ?w1" using assms(1) by (rule shape_grant)
  have oir: "owners_in_range ?w1" using assms(2) by (simp add: owners_in_range_def grant_sel)
  from assms have own: "vec_at (objectOwners w) object = Some (objectOwners w ! object)"
    by (simp add: vec_at_def shape_def)
  have scan: "write_scan ?w1 subject (objectOwners w ! object) [0..<objects w] =
      Some (tainted ?w1 subject object)"
    using sh oir assms owner_in_range [OF assms(1,2,4)]
    by (simp add: write_scan_total grant_sel tainted_def lessThan_def Bex_def)
  from sh assms have acc: "set_access (accessMatrix ?w1) subject object =
      Some (accessMatrix (grant subject object ?w1))"
    by (subst set_access_total) (simp_all add: shape_def grant_sel grant_def)
  have upd: "?w1\<lparr>accessMatrix := accessMatrix (grant subject object ?w1)\<rparr> =
      grant subject object ?w1"
    by (simp add: grant_def)
  from assms show ?thesis
    by (simp add: write_def r grant_sel own scan acc upd del: write_scan.simps)
qed

subsection \<open>The hypotheses of the decision rules hold along a session\<close>

text \<open>
  With at least one firm, every state that the set-up produces has the constructor's
  vector lengths and owners inside the conflict vector, and every operation keeps both.
\<close>

lemma configured_firms:
  "configured w \<Longrightarrow> shape w \<and> (0 < firms w \<longrightarrow> owners_in_range w)"
proof (induction rule: configured.induct)
  case (constructed n m f)
  show ?case
    by (simp add: shape_init) (simp add: owners_in_range_def ChineseWall_init_def size_t_of_int_def)
next
  case (owner_set w object firm log w')
  from setObjectOwner_Some [OF owner_set.hyps(2)] owner_set.IH show ?case
    by (auto simp: shape_def owners_in_range_def dest!: set_update_subset_insert [THEN subsetD])
next
  case (conflict_added w firm1 firm2 log w')
  from addConflictClass_Some [OF conflict_added.hyps(2)] conflict_added.IH show ?case
    by (auto simp: shape_def owners_in_range_def)
qed

lemma step_wellformed:
  assumes "step w w'" "shape w" "owners_in_range w"
  shows "shape w' \<and> owners_in_range w'"
  using assms
proof (induction rule: step.induct)
  case (step_read s o' w ok log w')
  from read_Some [OF step_read.hyps] step_read.prems show ?case
    by (cases ok) (auto simp: shape_grant owners_in_range_def grant_sel)
next
  case (step_write s o' w ok log w')
  from write_Some [OF step_write.hyps] step_write.prems show ?case
    by (auto simp: shape_grant owners_in_range_def grant_sel)
next
  case (step_owner object firm w log w')
  from setObjectOwner_Some [OF step_owner.hyps] step_owner.prems show ?case
    by (auto simp: shape_def owners_in_range_def dest!: set_update_subset_insert [THEN subsetD])
next
  case (step_conflict firm1 firm2 w log w')
  from addConflictClass_Some [OF step_conflict.hyps] step_conflict.prems show ?case
    by (auto simp: shape_def owners_in_range_def)
qed

lemma start_wellformed:
  "shape w \<Longrightarrow> owners_in_range w \<Longrightarrow> shape (start w) \<and> owners_in_range (start w)"
  by (simp add: shape_start) (simp add: owners_in_range_def start_def)

subsection \<open>Steps, diagnostics and a firm in conflict with itself\<close>

lemma step_granted: "step w w' \<Longrightarrow> granted w s o' \<Longrightarrow> granted w' s o'"
proof (induction rule: step.induct)
  case (step_read a b w ok log w')
  from read_Some [OF step_read.hyps] step_read.prems show ?case
    by (cases ok) (auto simp: granted_grant)
next
  case (step_write a b w ok log w')
  from write_Some [OF step_write.hyps] step_write.prems show ?case
    by (auto simp: granted_grant)
next
  case (step_owner object firm w log w')
  from setObjectOwner_Some [OF step_owner.hyps] step_owner.prems show ?case
    by (auto simp: granted_def)
next
  case (step_conflict firm1 firm2 w log w')
  from addConflictClass_Some [OF step_conflict.hyps] step_conflict.prems show ?case
    by (auto simp: granted_def)
qed

lemma read_log:
  assumes "s < subjects w" "o' < objects w" "read s o' w = Some (ok, log, w')"
  shows "log = []"
  using assms by (auto simp: read_def split: if_splits bind_splits)

lemma write_log:
  assumes "s < subjects w" "o' < objects w" "write s o' w = Some (ok, log, w')"
  shows "log = []"
proof -
  from assms obtain ok1 log1 w1 where r: "read s o' w = Some (ok1, log1, w1)"
    and rest: "(if \<not> ok1 then Some (False, log1, w1)
       else vec_at (objectOwners w1) o' \<bind>
            (\<lambda>objectOwner. write_scan w1 s objectOwner [0..<objects w1] \<bind>
               (\<lambda>tainted. if tainted then Some (False, log1, w1)
                  else set_access (accessMatrix w1) s o' \<bind>
                       (\<lambda>m. Some (True, log1, w1\<lparr>accessMatrix := m\<rparr>))))) = Some (ok, log, w')"
    by (auto simp: write_def split: bind_splits)
  from rest have "log = log1" by (auto split: if_splits bind_splits)
  with read_log [OF assms(1,2) r] show ?thesis by simp
qed

lemma with_self_conflict_sel:
  "accessMatrix (with_self_conflict A w) = accessMatrix w"
  "objectOwners (with_self_conflict A w) = objectOwners w"
  by (simp_all add: with_self_conflict_def)

lemma vec_at_self_conflict:
  assumes "size_t_of_int A < length (conflictClasses w)"
  shows "vec_at (conflictClasses (with_self_conflict A w)) (size_t_of_int owner) =
           (if owner = A then Some (insert A (conflictClasses w ! size_t_of_int A))
            else vec_at (conflictClasses w) (size_t_of_int owner))"
  using assms by (simp add: with_self_conflict_def vec_at_def size_t_of_int_inj)

lemma write_scan_self_conflict:
  assumes "size_t_of_int A < length (conflictClasses w)"
  shows "write_scan (with_self_conflict A w\<lparr>accessMatrix := m\<rparr>) s owner idxs =
         write_scan (w\<lparr>accessMatrix := m\<rparr>) s owner idxs"
proof (induction idxs)
  case Nil
  show ?case by simp
next
  case (Cons i idxs)
  have cc: "conflictClasses (with_self_conflict A w\<lparr>accessMatrix := m\<rparr>) =
      conflictClasses (with_self_conflict A w)" by simp
  from assms have here: "vec_at (conflictClasses w) (size_t_of_int A) =
      Some (conflictClasses w ! size_t_of_int A)" by (simp add: vec_at_def)
  from Cons.IH show ?case
    by (auto simp: with_self_conflict_sel cc vec_at_self_conflict [OF assms] here
        split: bind_split)
qed

lemma read_scan_self_conflict:
  assumes "size_t_of_int A < length (conflictClasses w)" "owner \<noteq> A"
  shows "read_scan (with_self_conflict A w\<lparr>accessMatrix := m\<rparr>) object owner idxs =
         read_scan (w\<lparr>accessMatrix := m\<rparr>) object owner idxs"
proof (induction idxs)
  case Nil
  show ?case by simp
next
  case (Cons i idxs)
  have cc: "conflictClasses (with_self_conflict A w\<lparr>accessMatrix := m\<rparr>) =
      conflictClasses (with_self_conflict A w)" by simp
  from Cons.IH show ?case
    by (auto simp: with_self_conflict_sel cc vec_at_self_conflict [OF assms(1)] assms(2)
        split: bind_split)
qed

text \<open>
  The call \<open>addConflictClass(A, A)\<close> is accepted and leaves the scan of \<open>write\<close>, which
  skips objects of the same owner, as it was on every access history. The scan of \<open>read\<close>
  is only kept for objects that \<open>A\<close> does not own.
\<close>

lemma self_conflict_scans:
  assumes "size_t_of_int A < firms w" "length (conflictClasses w) = firms w"
  shows "addConflictClass A A w = Some ([], with_self_conflict A w) \<and>
         (\<forall>m s owner idxs.
            write_scan (with_self_conflict A w\<lparr>accessMatrix := m\<rparr>) s owner idxs =
            write_scan (w\<lparr>accessMatrix := m\<rparr>) s owner idxs) \<and>
         (\<forall>m object owner idxs. owner \<noteq> A \<longrightarrow>
            read_scan (with_self_conflict A w\<lparr>accessMatrix := m\<rparr>) object owner idxs =
            read_scan (w\<lparr>accessMatrix := m\<rparr>) object owner idxs)"
proof (intro conjI allI impI)
  from assms show "addConflictClass A A w = Some ([], with_self_conflict A w)"
    by (simp add: addConflictClass_def with_self_conflict_def vec_at_def vec_set_def)
next
  fix m s owner idxs
  from assms show "write_scan (with_self_conflict A w\<lparr>accessMatrix := m\<rparr>) s owner idxs =
      write_scan (w\<lparr>accessMatrix := m\<rparr>) s owner idxs"
    by (intro write_scan_self_conflict) simp
next
  fix m object owner idxs
  assume "owner \<noteq> A"
  with assms show "read_scan (with_self_conflict A w\<lparr>accessMatrix := m\<rparr>) object owner idxs =
      read_scan (w\<lparr>accessMatrix := m\<rparr>) object owner idxs"
    by (intro read_scan_self_conflict) simp_all
qed

subsection \<open>The concrete sessions\<close>

lemma scenario_policy_set_up:
  "do {
     (_, w1) \<leftarrow> setObjectOwner 0 0 (ChineseWall_init 2 2 2);
     (_, w2) \<leftarrow> setObjectOwner 1 1 w1;
     (_, w3) \<leftarrow> addConflictClass 0 1 w2;
     Some w3
   } = Some scenario_policy"
  by (simp add: setObjectOwner_def addConflictClass_def ChineseWall_init_def vec_at_def
      vec_set_def size_t_of_int_def scenario_policy_def numeral_2_eq_2)

lemma shape_history:
  "shape (history [[a, b], [c, d]])" "owners_in_range (history [[a, b], [c, d]])"
  by (simp_all add: shape_def owners_in_range_def history_def scenario_policy_def
      size_t_of_int_def)


lemma scenario_policy_history: "scenario_policy = history [[False, False], [False, False]]"
  by (simp add: history_def scenario_policy_def)

lemma history_sel:
  "subjects (history m) = 2" "objects (history m) = 2" "firms (history m) = 2"
  "accessMatrix (history m) = m" "objectOwners (history m) = [0, 1]"
  "conflictClasses (history m) = [{1}, {0}]"
  by (simp_all add: history_def scenario_policy_def)

lemma grant_history:
  "grant 0 0 (history [[a, b], [c, d]]) = history [[True, b], [c, d]]"
  "grant 0 (Suc 0) (history [[a, b], [c, d]]) = history [[a, True], [c, d]]"
  "grant (Suc 0) 0 (history [[a, b], [c, d]]) = history [[a, b], [True, d]]"
  "grant (Suc 0) (Suc 0) (history [[a, b], [c, d]]) = history [[a, b], [c, True]]"
  by (simp_all add: grant_def history_def)

lemma granted_history:
  "granted (history [[a, b], [c, d]]) 0 0 = a"
  "granted (history [[a, b], [c, d]]) 0 (Suc 0) = b"
  "granted (history [[a, b], [c, d]]) (Suc 0) 0 = c"
  "granted (history [[a, b], [c, d]]) (Suc 0) (Suc 0) = d"
  by (simp_all add: granted_def history_def)

lemma conflicts_history:
  "conflicts (history m) 0 0 = False" "conflicts (history m) 0 1 = True"
  "conflicts (history m) 1 0 = True" "conflicts (history m) 1 1 = False"
  by (simp_all add: conflicts_def history_def scenario_policy_def size_t_of_int_def)

lemma read_history:
  "read 0 0 (history [[False, False], [False, False]]) =
     Some (True, [], history [[True, False], [False, False]])"
  "read 0 (Suc 0) (history [[True, False], [False, False]]) =
     Some (True, [], history [[True, True], [False, False]])"
  "read (Suc 0) (Suc 0) (history [[True, True], [False, False]]) =
     Some (False, [], history [[True, True], [False, False]])"
  by (simp_all add: read_total shape_history history_sel grant_history granted_history
      conflicts_history int_of_size_t_def lessThan_Suc numeral_2_eq_2)

lemmas eval_defs =
  write_def read_def set_access_def vec_at_def vec_set_def setObjectOwner_def
  addConflictClass_def size_t_of_int_def int_of_size_t_def numeral_2_eq_2

lemma write_history:
  "write 0 0 (history [[False, False], [False, False]]) =
     Some (True, [], history [[True, False], [False, False]])"
  "write 0 (Suc 0) (history [[True, False], [False, False]]) =
     Some (False, [], history [[True, True], [False, False]])"
  by (simp_all add: eval_defs history_def scenario_policy_def)

lemma late_session:
  "write 0 0 late_policy = Some (True, [], late_policy\<lparr>accessMatrix := [[True, False]]\<rparr>)"
  "write 0 (Suc 0) (late_policy\<lparr>accessMatrix := [[True, False]]\<rparr>) =
     Some (True, [], late_policy\<lparr>accessMatrix := [[True, True]]\<rparr>)"
  "setObjectOwner (Suc 0) 1 (late_policy\<lparr>accessMatrix := [[True, True]]\<rparr>) =
     Some ([], late_policy\<lparr>accessMatrix := [[True, True]], objectOwners := [0, 1]\<rparr>)"
  by (simp_all add: eval_defs late_policy_def)

lemma configured_scenario_policy: "configured scenario_policy"
proof -
  let ?w0 = "ChineseWall_init 2 2 2"
  let ?w1 = "?w0\<lparr>objectOwners := [0, 1]\<rparr>"
  have "configured ?w0" by (rule constructed)
  moreover have "setObjectOwner 1 1 ?w0 = Some ([], ?w1)"
    by (simp add: eval_defs ChineseWall_init_def)
  ultimately have "configured ?w1" by (rule owner_set)
  moreover have "addConflictClass 0 1 ?w1 = Some ([], scenario_policy)"
    by (simp add: eval_defs ChineseWall_init_def scenario_policy_def)
  ultimately show ?thesis by (rule conflict_added)
qed

lemma configured_late_policy: "configured late_policy"
proof -
  have "configured (ChineseWall_init 1 2 2)" by (rule constructed)
  moreover have "addConflictClass 0 1 (ChineseWall_init 1 2 2) = Some ([], late_policy)"
    by (simp add: eval_defs ChineseWall_init_def late_policy_def)
  ultimately show ?thesis by (rule conflict_added)
qed

lemma unsafe_history: "\<not> cw_safe (history [[True, True], [False, False]])"
  by (simp add: cw_safe_def history_sel granted_history conflicts_history lessThan_Suc
      numeral_2_eq_2)

lemma unsafe_late:
  "\<not> cw_safe (late_policy\<lparr>accessMatrix := [[True, True]], objectOwners := [0, 1]\<rparr>)"
  by (simp add: cw_safe_def late_policy_def granted_def conflicts_def size_t_of_int_def
      lessThan_Suc numeral_2_eq_2)

lemma exec_history:
  "exec (Read 0 0) (history [[False, False], [False, False]]) =
     Some (''accepted'', history [[True, False], [False, False]])"
  "exec (Read 0 (Suc 0)) (history [[True, False], [False, False]]) =
     Some (''accepted'', history [[True, True], [False, False]])"
  "exec (Read (Suc 0) (Suc 0)) (history [[True, True], [False, False]]) =
     Some (''refused'', history [[True, True], [False, False]])"
  by (simp_all add: read_history)

lemma index_rejected_5:
  "read 99 0 (ChineseWall_init 5 (Suc 0) (Suc 0)) =
     Some (False, [err_subject_object], ChineseWall_init 5 (Suc 0) (Suc 0))"
  by (simp add: read_def ChineseWall_init_def)

text \<open>
  Without a firm the owner 0 of the constructor is outside the empty conflict vector:
  the first read of an object is accepted, the second one indexes past the end.
\<close>

lemma read_without_firms:
  "read 0 0 (ChineseWall_init 1 1 0) = Some (True, [], grant 0 0 (ChineseWall_init 1 1 0))"
  "read 0 0 (grant 0 0 (ChineseWall_init 1 1 0)) = None"
  by (simp_all add: eval_defs ChineseWall_init_def grant_def)

text \<open>
  The path through \<open>write\<close> keeps the wall: in a session that sets owners and conflict
  pairs first and whose traffic is \<open>start\<close> and accepted writes, no subject holds two
  objects of different firms in conflict. An owner set after the accesses can put two
  objects that a subject holds into conflicting firms.
\<close>

lemma accepted_writes_safe: "running w \<Longrightarrow> cw_safe w"
  by (simp add: running_inv)

lemma late_owner_unsafe:
  "configured late_policy \<and>
   write 0 0 late_policy = Some (True, [], late_policy\<lparr>accessMatrix := [[True, False]]\<rparr>) \<and>
   write 0 1 (late_policy\<lparr>accessMatrix := [[True, False]]\<rparr>) =
     Some (True, [], late_policy\<lparr>accessMatrix := [[True, True]]\<rparr>) \<and>
   setObjectOwner 1 1 (late_policy\<lparr>accessMatrix := [[True, True]]\<rparr>) =
     Some ([], late_policy\<lparr>accessMatrix := [[True, True]], objectOwners := [0, 1]\<rparr>) \<and>
   \<not> cw_safe (late_policy\<lparr>accessMatrix := [[True, True]], objectOwners := [0, 1]\<rparr>)"
  by (simp add: configured_late_policy late_session unsafe_late)

section \<open>The claims\<close>

text \<open>
  C1 fails on the code. With the owners and the conflict pair of scenario 1 set before
  any access, \<open>read(0, 0)\<close> and \<open>read(0, 1)\<close> are both accepted: subject 0 then holds
  object 0 of firm 0 and object 1 of firm 1, and the two firms are in conflict
  (\<open>unsafe_history\<close> is the same fact about \<open>cw_safe\<close>).
\<close>

theorem reads_break_safety:
  "read 0 0 scenario_policy = Some (True, [], history [[True, False], [False, False]]) \<and>
   read 0 1 (history [[True, False], [False, False]]) =
     Some (True, [], history [[True, True], [False, False]]) \<and>
   granted (history [[True, True], [False, False]]) 0 0 \<and>
   granted (history [[True, True], [False, False]]) 0 1 \<and>
   objectOwners (history [[True, True], [False, False]]) ! 0 \<noteq>
     objectOwners (history [[True, True], [False, False]]) ! 1 \<and>
   conflicts (history [[True, True], [False, False]])
     (objectOwners (history [[True, True], [False, False]]) ! 0)
     (objectOwners (history [[True, True], [False, False]]) ! 1)"
  by (simp add: scenario_policy_history read_history granted_history history_sel
      conflicts_history)




text \<open>
  C3 fails on the code. In scenario 2 subject 0 holds object 0 of firm 0, and its write
  to object 1 of the conflicting firm 1 is refused by the scan of \<open>write\<close>; the entry
  that the inner \<open>read\<close> has set for object 1 stays.
\<close>

theorem refused_write_keeps_grant:
  "write 0 1 (history [[True, False], [False, False]]) =
     Some (False, [], history [[True, True], [False, False]]) \<and>
   \<not> granted (history [[True, False], [False, False]]) 0 1 \<and>
   granted (history [[True, True], [False, False]]) 0 1"
  by (simp add: write_history granted_history)

text \<open>
  C4, as amended. In a state whose vectors have the lengths of the counts and whose
  owners index the conflict vector, and for a subject and an object in range, \<open>write\<close>
  first calls \<open>read\<close>; if \<open>read\<close> refuses, \<open>write\<close> refuses with the state that \<open>read\<close>
  left. Otherwise it refuses exactly when the subject holds an object of another firm
  that is in the conflict set of the owner of the object, and if there is none it sets
  the entry and accepts.
\<close>

theorem write_decision_rule:
  assumes "shape w" "owners_in_range w" "subject < subjects w" "object < objects w"
  shows "read subject object w = Some (False, [], w) \<and>
           write subject object w = Some (False, [], w)
         \<or>
         read subject object w = Some (True, [], grant subject object w) \<and>
           write subject object w =
             (if tainted (grant subject object w) subject object
              then Some (False, [], grant subject object w)
              else Some (True, [], grant subject object (grant subject object w)))"
  using assms by (rule write_total)

theorem write_decision_rule_witness:
  "shape (history [[True, False], [False, False]]) \<and>
   owners_in_range (history [[True, False], [False, False]]) \<and>
   0 < subjects (history [[True, False], [False, False]]) \<and>
   1 < objects (history [[True, False], [False, False]]) \<and>
   tainted (history [[True, True], [False, False]]) 0 1 \<and>
   write 0 1 (history [[True, False], [False, False]]) =
     Some (False, [], history [[True, True], [False, False]])"
  using write_decision_rule [of "history [[True, False], [False, False]]" 0 1]
  by (simp add: shape_history history_sel read_history grant_history tainted_def
      granted_history conflicts_history lessThan_Suc numeral_2_eq_2)

text \<open>
  C4 as stated fails. A wall constructed without a firm gives every object the owner 0,
  which is outside the empty conflict vector. The first \<open>write(0, 0)\<close> is accepted; the
  second one, with both indices in range, indexes \<open>conflictClasses\<close> past its end in the
  inner \<open>read\<close> and returns no decision at all.
\<close>

theorem write_decision_rule_counterexample:
  "0 < subjects (ChineseWall_init 1 1 0) \<and> 0 < objects (ChineseWall_init 1 1 0) \<and>
   write 0 0 (ChineseWall_init 1 1 0) = Some (True, [], grant 0 0 (ChineseWall_init 1 1 0)) \<and>
   0 < subjects (grant 0 0 (ChineseWall_init 1 1 0)) \<and>
   0 < objects (grant 0 0 (ChineseWall_init 1 1 0)) \<and>
   read 0 0 (grant 0 0 (ChineseWall_init 1 1 0)) = None \<and>
   write 0 0 (grant 0 0 (ChineseWall_init 1 1 0)) = None"
  by (simp add: eval_defs ChineseWall_init_def grant_def)

text \<open>
  C5 fails on the code. In scenario 1 the three reads print accepted, accepted,
  refused: \<open>read(0, 1)\<close> is accepted because nobody holds object 1 yet, and
  \<open>read(1, 1)\<close> is refused because subject 0 holds object 1 and the index 0 is in the
  conflict set of firm 1.
\<close>

theorem scenario_1:
  "run [Read 0 0, Read 0 1, Read 1 1] scenario_policy =
     Some ([''accepted'', ''accepted'', ''refused''], history [[True, True], [False, False]])"
  by (simp add: scenario_policy_history exec_history del: exec.simps)

text \<open>
  C6 fails on the code. After \<open>addConflictClass(0, 0)\<close> on the policy of scenario 1 the
  subject index 0 is in the conflict set of firm 0. Once subject 0 holds object 0, the
  read and the write of object 0 by subject 1 are refused; without the call both are
  accepted.
\<close>

theorem self_conflict_changes_decisions:
  "addConflictClass 0 0 scenario_policy =
     Some ([], scenario_policy\<lparr>conflictClasses := [{0, 1}, {0}]\<rparr>) \<and>
   run [Read 0 0, Read 1 0] scenario_policy =
     Some ([''accepted'', ''accepted''], history [[True, False], [True, False]]) \<and>
   run [Read 0 0, Read 1 0] (scenario_policy\<lparr>conflictClasses := [{0, 1}, {0}]\<rparr>) =
     Some ([''accepted'', ''refused''],
       history [[True, False], [False, False]]\<lparr>conflictClasses := [{0, 1}, {0}]\<rparr>) \<and>
   run [Read 0 0, Write 1 0] scenario_policy =
     Some ([''accepted'', ''accepted''], history [[True, False], [True, False]]) \<and>
   run [Read 0 0, Write 1 0] (scenario_policy\<lparr>conflictClasses := [{0, 1}, {0}]\<rparr>) =
     Some ([''accepted'', ''refused''],
       history [[True, False], [False, False]]\<lparr>conflictClasses := [{0, 1}, {0}]\<rparr>)"
  by (simp add: eval_defs scenario_policy_def history_def)

text \<open>
  C7, as amended. With the subject or the object out of range, \<open>read\<close> and \<open>write\<close>
  return false, leave the state as it is and write one diagnostic line to the error
  stream. With both in range they never write a diagnostic. The return value itself
  is the \<open>false\<close> of a policy refusal.
\<close>

theorem index_rejection:
  "(subjects w \<le> s \<or> objects w \<le> o' \<longrightarrow>
      read s o' w = Some (False, [err_subject_object], w) \<and>
      write s o' w = Some (False, [err_subject_object], w)) \<and>
   (s < subjects w \<and> o' < objects w \<longrightarrow>
      (\<forall>ok log w'. read s o' w = Some (ok, log, w') \<or> write s o' w = Some (ok, log, w') \<longrightarrow>
         log = []))"
proof (intro conjI impI allI)
  assume "subjects w \<le> s \<or> objects w \<le> o'"
  then show "read s o' w = Some (False, [err_subject_object], w)"
    and "write s o' w = Some (False, [err_subject_object], w)"
    by (simp_all add: read_def write_def)
next
  fix ok log w'
  assume "s < subjects w \<and> o' < objects w"
    and "read s o' w = Some (ok, log, w') \<or> write s o' w = Some (ok, log, w')"
  then show "log = []" by (blast dest: read_log write_log)
qed

theorem index_rejection_witness:
  "subjects (ChineseWall_init 5 1 1) \<le> 99 \<and>
   read 99 0 (ChineseWall_init 5 1 1) =
     Some (False, [err_subject_object], ChineseWall_init 5 1 1) \<and>
   write 99 0 (ChineseWall_init 5 1 1) =
     Some (False, [err_subject_object], ChineseWall_init 5 1 1) \<and>
   1 < subjects (history [[True, True], [False, False]]) \<and>
   1 < objects (history [[True, True], [False, False]]) \<and>
   read 1 1 (history [[True, True], [False, False]]) =
     Some (False, [], history [[True, True], [False, False]])"
  using index_rejection [of "ChineseWall_init 5 1 1" 99 0]
    index_rejection [of "history [[True, True], [False, False]]" 1 1]
  by (simp add: ChineseWall_init_def history_sel read_history)

text \<open>
  C7 as stated fails: \<open>read(99, 0)\<close> with five subjects and a read refused by the
  policy return the same value, and the command loop prints the same line for both.
\<close>

theorem index_rejection_counterexample:
  "map_option fst (read 99 0 (ChineseWall_init 5 1 1)) = Some False \<and>
   map_option fst (read 1 1 (history [[True, True], [False, False]])) = Some False \<and>
   map_option fst (exec (Read 99 0) (ChineseWall_init 5 1 1)) = Some ''refused'' \<and>
   map_option fst (exec (Read 1 1) (history [[True, True], [False, False]])) = Some ''refused''"
  by (simp add: read_history index_rejected_5)

text \<open>
  C8. Calling \<open>start\<close> twice gives the state that calling it once gives, and after
  \<open>start\<close> no entry of the access matrix is set.
\<close>

theorem start_idempotent:
  "start (start w) = start w \<and> (\<forall>s o'. \<not> granted (start w) s o')"
  by (simp add: no_grants_start) (simp add: start_def comp_def)

theorem start_idempotent_witness:
  "start (start (history [[True, True], [False, False]])) =
     start (history [[True, True], [False, False]]) \<and>
   start (history [[True, True], [False, False]]) = history [[False, False], [False, False]] \<and>
   \<not> granted (start (history [[True, True], [False, False]])) 0 1"
  using start_idempotent [of "history [[True, True], [False, False]]"]
  by (simp add: start_def history_def)

text \<open>
  C9. Along any sequence of \<open>read\<close>, \<open>write\<close>, \<open>setObjectOwner\<close> and
  \<open>addConflictClass\<close> calls, accepted or not, an entry of the access matrix that is
  set stays set.
\<close>

theorem granted_monotone:
  "step\<^sup>*\<^sup>* w w' \<Longrightarrow> granted w s o' \<Longrightarrow> granted w' s o'"
  by (induction rule: rtranclp_induct) (auto intro: step_granted)

theorem granted_monotone_witness:
  "step\<^sup>*\<^sup>* (history [[True, False], [False, False]]) (history [[True, True], [False, False]]) \<and>
   granted (history [[True, False], [False, False]]) 0 0 \<and>
   granted (history [[True, True], [False, False]]) 0 0"
proof -
  have "step (history [[True, False], [False, False]]) (history [[True, True], [False, False]])"
    by (rule step_write) (rule write_history(2))
  then have s: "step\<^sup>*\<^sup>* (history [[True, False], [False, False]])
      (history [[True, True], [False, False]])" by (rule r_into_rtranclp)
  have g: "granted (history [[True, False], [False, False]]) 0 0"
    by (simp add: granted_history)
  from s g granted_monotone [OF s g] show ?thesis by simp
qed

text \<open>
  C10. \<open>read\<close>, \<open>write\<close> and \<open>start\<close> leave the owners and the conflict sets as they
  are, for any arguments; \<open>setObjectOwner\<close> and \<open>addConflictClass\<close> leave the access
  matrix as it is.
\<close>

theorem frame_property:
  "(read s o' w = Some (ok, log, w') \<longrightarrow>
      objectOwners w' = objectOwners w \<and> conflictClasses w' = conflictClasses w) \<and>
   (write s o' w = Some (ok, log, w') \<longrightarrow>
      objectOwners w' = objectOwners w \<and> conflictClasses w' = conflictClasses w) \<and>
   objectOwners (start w) = objectOwners w \<and> conflictClasses (start w) = conflictClasses w \<and>
   (setObjectOwner object firm w = Some (log2, w2) \<longrightarrow> accessMatrix w2 = accessMatrix w) \<and>
   (addConflictClass firm1 firm2 w = Some (log3, w3) \<longrightarrow> accessMatrix w3 = accessMatrix w)"
proof (intro conjI impI)
  assume r: "read s o' w = Some (ok, log, w')"
  from read_Some [OF r] show "objectOwners w' = objectOwners w"
    by (cases ok) (auto simp: grant_sel)
  from read_Some [OF r] show "conflictClasses w' = conflictClasses w"
    by (cases ok) (auto simp: grant_sel)
next
  assume r: "write s o' w = Some (ok, log, w')"
  from write_Some [OF r] show "objectOwners w' = objectOwners w"
    by (auto simp: grant_sel)
  from write_Some [OF r] show "conflictClasses w' = conflictClasses w"
    by (auto simp: grant_sel)
next
  show "objectOwners (start w) = objectOwners w" by (simp add: start_def)
  show "conflictClasses (start w) = conflictClasses w" by (simp add: start_def)
next
  assume "setObjectOwner object firm w = Some (log2, w2)"
  from setObjectOwner_Some [OF this] show "accessMatrix w2 = accessMatrix w" by auto
next
  assume "addConflictClass firm1 firm2 w = Some (log3, w3)"
  from addConflictClass_Some [OF this] show "accessMatrix w3 = accessMatrix w" by auto
qed

theorem frame_property_witness:
  "read 0 0 (history [[False, False], [False, False]]) =
     Some (True, [], history [[True, False], [False, False]]) \<and>
   write 0 0 (history [[False, False], [False, False]]) =
     Some (True, [], history [[True, False], [False, False]]) \<and>
   setObjectOwner 0 1 (history [[False, False], [False, False]]) =
     Some ([], history [[False, False], [False, False]]\<lparr>objectOwners := [1, 1]\<rparr>) \<and>
   addConflictClass 0 0 (history [[False, False], [False, False]]) =
     Some ([], history [[False, False], [False, False]]\<lparr>conflictClasses := [{0, 1}, {0}]\<rparr>) \<and>
   objectOwners (history [[True, False], [False, False]]) =
     objectOwners (history [[False, False], [False, False]]) \<and>
   conflictClasses (history [[True, False], [False, False]]) =
     conflictClasses (history [[False, False], [False, False]]) \<and>
   accessMatrix (history [[False, False], [False, False]]\<lparr>objectOwners := [1, 1]\<rparr>) =
     accessMatrix (history [[False, False], [False, False]]) \<and>
   accessMatrix (history [[False, False], [False, False]]\<lparr>conflictClasses := [{0, 1}, {0}]\<rparr>) =
     accessMatrix (history [[False, False], [False, False]])"
proof -
  let ?w = "history [[False, False], [False, False]]"
  have r: "read 0 0 ?w = Some (True, [], history [[True, False], [False, False]])"
    by (rule read_history(1))
  have w: "write 0 0 ?w = Some (True, [], history [[True, False], [False, False]])"
    by (rule write_history(1))
  have so: "setObjectOwner 0 1 ?w = Some ([], ?w\<lparr>objectOwners := [1, 1]\<rparr>)"
    by (simp add: eval_defs history_def scenario_policy_def)
  have ac: "addConflictClass 0 0 ?w = Some ([], ?w\<lparr>conflictClasses := [{0, 1}, {0}]\<rparr>)"
    by (simp add: eval_defs history_def scenario_policy_def)
  from frame_property [of 0 0 ?w True "[]" "history [[True, False], [False, False]]"
       0 1 "[]" "?w\<lparr>objectOwners := [1, 1]\<rparr>" 0 0 "[]" "?w\<lparr>conflictClasses := [{0, 1}, {0}]\<rparr>"]
    r w so ac
  show ?thesis by simp
qed

end
